theory Spec2Isabelle
  imports Main "HOL-Library.Sublist" "HOL-Library.AList" "HOL-Library.Multiset"
begin

section \<open>JavaScript values used by pwcheck\<close>

subsection \<open>Strings and the regular expressions of the source\<close>

text \<open>
  A JavaScript string is a sequence of UTF-16 code units and \<^verbatim>\<open>s.length\<close> counts them.
  Here a string is a \<^typ>\<open>string\<close> and one \<^typ>\<open>char\<close> stands for one code unit; the
  model covers the code units 0 to 255 (ASCII and Latin-1), for which the case mappings
  below are the ones of \<^verbatim>\<open>toLowerCase\<close> and of the regular expression flag \<^verbatim>\<open>i\<close>.
\<close>

definition code :: "char \<Rightarrow> nat" where
  "code c = of_char c"

definition in_range :: "char \<Rightarrow> char \<Rightarrow> char \<Rightarrow> bool" where
  "in_range lo hi c = (code lo \<le> code c \<and> code c \<le> code hi)"

text \<open>\<^verbatim>\<open>/[a-z]/.test(s)\<close>, \<^verbatim>\<open>/[A-Z]/.test(s)\<close>, \<^verbatim>\<open>/\d/.test(s)\<close> and
  \<^verbatim>\<open>/[^A-Za-z0-9]/.test(s)\<close>: some code unit of the string is in the class.\<close>

definition hasLower :: "string \<Rightarrow> bool" where
  "hasLower s = list_ex (in_range CHR ''a'' CHR ''z'') s"

definition hasUpper :: "string \<Rightarrow> bool" where
  "hasUpper s = list_ex (in_range CHR ''A'' CHR ''Z'') s"

definition hasDigit :: "string \<Rightarrow> bool" where
  "hasDigit s = list_ex (in_range CHR ''0'' CHR ''9'') s"

definition hasSymbol :: "string \<Rightarrow> bool" where
  "hasSymbol s = list_ex (\<lambda>c. \<not> (in_range CHR ''A'' CHR ''Z'' c \<or> in_range CHR ''a'' CHR ''z'' c
                                  \<or> in_range CHR ''0'' CHR ''9'' c)) s"

text \<open>
  The flag \<^verbatim>\<open>i\<close> (without \<^verbatim>\<open>u\<close>) compares code units after mapping each to its
  upper case; a code unit outside ASCII is never mapped into ASCII.
\<close>

definition canonicalize :: "char \<Rightarrow> char" where
  "canonicalize c =
     (if in_range CHR ''a'' CHR ''z'' c \<or> (224 \<le> code c \<and> code c \<le> 254 \<and> code c \<noteq> 247)
      then char_of (code c - 32) else c)"

text \<open>An unanchored, case-insensitive search for a literal: \<^verbatim>\<open>/lit/i.test(s)\<close>.\<close>

definition test_ci :: "string \<Rightarrow> string \<Rightarrow> bool" where
  "test_ci lit s = sublist (map canonicalize lit) (map canonicalize s)"

text \<open>A case-insensitive literal anchored at the start: \<^verbatim>\<open>/^lit/i.test(s)\<close>.\<close>

definition test_ci_start :: "string \<Rightarrow> string \<Rightarrow> bool" where
  "test_ci_start lit s = prefix (map canonicalize lit) (map canonicalize s)"

definition lower_char :: "char \<Rightarrow> char" where
  "lower_char c =
     (if in_range CHR ''A'' CHR ''Z'' c \<or> (192 \<le> code c \<and> code c \<le> 222 \<and> code c \<noteq> 215)
      then char_of (code c + 32) else c)"

definition toLowerCase :: "string \<Rightarrow> string" where
  "toLowerCase s = map lower_char s"

definition is_space :: "char \<Rightarrow> bool" where
  "is_space c = (code c \<in> {9, 10, 11, 12, 13, 32, 160})"

definition trim :: "string \<Rightarrow> string" where
  "trim s = rev (dropWhile is_space (rev (dropWhile is_space s)))"

definition startsWith :: "string \<Rightarrow> string \<Rightarrow> bool" where
  "startsWith s p = prefix p s"

definition includes_str :: "string \<Rightarrow> string \<Rightarrow> bool" where
  "includes_str s p = sublist p s"

subsection \<open>Numbers in template literals\<close>

text \<open>\<^verbatim>\<open>`${n}`\<close> for an integer \<open>n\<close>: its decimal numeral.\<close>

definition digit_char :: "nat \<Rightarrow> char" where
  "digit_char d = char_of (code CHR ''0'' + d)"

function decimal :: "nat \<Rightarrow> string" where
  "decimal n = (if n div 10 = 0 then [] else decimal (n div 10)) @ [digit_char (n mod 10)]"
  by pat_completeness auto
termination
  by (relation "measure (\<lambda>n. n)") auto

declare decimal.simps [simp del]

definition toString_int :: "int \<Rightarrow> string" where
  "toString_int i = (if 0 \<le> i then decimal (nat i) else CHR ''-'' # decimal (nat (- i)))"

subsection \<open>Map objects\<close>

text \<open>
  A JavaScript \<^verbatim>\<open>Map\<close> iterates in the order in which its keys were first set, and
  \<^verbatim>\<open>set\<close> on a key that is present replaces the value where it stands. It is an
  association list with distinct keys, a new key going to the end.
\<close>

type_synonym ('k, 'v) Map = "('k \<times> 'v) list"

definition Map_get :: "('k, 'v) Map \<Rightarrow> 'k \<Rightarrow> 'v option" where
  "Map_get m k = map_of m k"

definition Map_has :: "('k, 'v) Map \<Rightarrow> 'k \<Rightarrow> bool" where
  "Map_has m k = (map_of m k \<noteq> None)"

definition Map_set :: "('k, 'v) Map \<Rightarrow> 'k \<Rightarrow> 'v \<Rightarrow> ('k, 'v) Map" where
  "Map_set m k v = AList.update k v m"

subsection \<open>Array.prototype.sort\<close>

text \<open>
  \<^verbatim>\<open>xs.sort(cmp)\<close> is a stable sort: for a consistent comparison function the result
  is the one permutation that is ordered by \<open>cmp\<close> and keeps elements that compare
  equal in their former order. Insertion from the right computes it.
\<close>

fun insert_by :: "('a \<Rightarrow> 'a \<Rightarrow> int) \<Rightarrow> 'a \<Rightarrow> 'a list \<Rightarrow> 'a list" where
  "insert_by cmp x [] = [x]"
| "insert_by cmp x (y # ys) = (if cmp x y \<le> 0 then x # y # ys else y # insert_by cmp x ys)"

definition sort_by :: "('a \<Rightarrow> 'a \<Rightarrow> int) \<Rightarrow> 'a list \<Rightarrow> 'a list" where
  "sort_by cmp xs = foldr (insert_by cmp) xs []"

section \<open>The analysis core: \<^verbatim>\<open>analyze\<close>\<close>

record Entry =
  site :: string
  username :: string
  password :: string

record WeakFinding =
  index :: nat
  site_wf :: string
  username_wf :: string
  reasons :: "string list"

text \<open>A member of a reuse group is the object \<^verbatim>\<open>{site, username}\<close>, here a pair.\<close>

record ReuseGroup =
  count :: nat
  sites :: "(string \<times> string) list"

record Summary =
  total :: nat
  weak :: nat
  reusedGroups :: nat
  reusedAccounts :: nat

record Report =
  summary :: Summary
  weakFindings :: "WeakFinding list"
  reuseGroups :: "ReuseGroup list"

text \<open>The body of the callback of \<^verbatim>\<open>entries.map\<close>: the reasons pushed for a password.\<close>

definition reasons_of :: "string \<Rightarrow> string list" where
  "reasons_of pw =
     (if length pw < 12 then [''Length < 12''] else []) @
     (if \<not> hasLower pw then [''No lowercase''] else []) @
     (if \<not> hasUpper pw then [''No uppercase''] else []) @
     (if \<not> hasDigit pw then [''No number''] else []) @
     (if \<not> hasSymbol pw then [''No symbol''] else []) @
     (if test_ci ''password'' pw \<or> test_ci ''qwerty'' pw \<or> test_ci ''1234'' pw
      then [''Common pattern''] else [])"

text \<open>The callback's result: a finding, or \<^verbatim>\<open>null\<close> when no reason was pushed.\<close>

definition weakFinding_of :: "nat \<times> Entry \<Rightarrow> WeakFinding option" where
  "weakFinding_of ie =
     (case ie of (idx, e) \<Rightarrow>
        let pw = password e; rs = reasons_of pw
        in if length rs \<noteq> 0
           then Some \<lparr>index = idx, site_wf = site e, username_wf = username e, reasons = rs\<rparr>
           else None)"

text \<open>\<^verbatim>\<open>entries.map(callback).filter(x => x !== null)\<close>.\<close>

definition weak_checks :: "Entry list \<Rightarrow> WeakFinding list" where
  "weak_checks entries = List.map_filter (\<lambda>x. x) (map weakFinding_of (enumerate 0 entries))"

text \<open>
  One round of the grouping loop. \<^verbatim>\<open>map.get(key)!.push(m)\<close> appends to the array stored
  under the key; the key is present after the \<^verbatim>\<open>set\<close> before it.
\<close>

definition Map_push :: "('k, 'v list) Map \<Rightarrow> 'k \<Rightarrow> 'v \<Rightarrow> ('k, 'v list) Map" where
  "Map_push m k x = (case Map_get m k of Some xs \<Rightarrow> Map_set m k (xs @ [x]) | None \<Rightarrow> m)"

definition group_step :: "Entry \<Rightarrow> (string, (string \<times> string) list) Map
    \<Rightarrow> (string, (string \<times> string) list) Map" where
  "group_step e m =
     (let key = password e;
          m1 = (if \<not> Map_has m key then Map_set m key [] else m)
      in Map_push m1 key (site e, username e))"

definition group_by_password :: "Entry list \<Rightarrow> (string, (string \<times> string) list) Map" where
  "group_by_password entries = fold group_step entries []"

definition count_desc :: "ReuseGroup \<Rightarrow> ReuseGroup \<Rightarrow> int" where
  "count_desc a b = int (count b) - int (count a)"

definition reuse_groups :: "Entry list \<Rightarrow> ReuseGroup list" where
  "reuse_groups entries =
     sort_by count_desc
       (List.map_filter
          (\<lambda>(k, ss). if length ss \<ge> 2 then Some \<lparr>count = length ss, sites = ss\<rparr> else None)
          (group_by_password entries))"

definition analyze :: "Entry list \<Rightarrow> Report" where
  "analyze entries =
     (let wf = weak_checks entries;
          rg = reuse_groups entries;
          n_groups = length rg;
          n_accounts = foldl (\<lambda>acc g. acc + count g) 0 rg
      in \<lparr>summary = \<lparr>total = length entries, weak = length wf,
                      reusedGroups = n_groups, reusedAccounts = n_accounts\<rparr>,
          weakFindings = wf, reuseGroups = rg\<rparr>)"

section \<open>The projector: the derived values of \<^verbatim>\<open>App\<close>\<close>

text \<open>A row of the parsed file, and the result row shown for an entry.\<close>

record Row =
  name :: string
  url :: string
  username_row :: string
  password_row :: string
  note_row :: string

datatype IssueMode = IssueAll | IssueReuse | IssueWeak

datatype SortMode = SortRisk | SortDomain | SortReuseCount

datatype Risk = LOW | MEDIUM | HIGH

record ResultRow =
  key :: string
  site_rr :: string
  domain :: string
  username_rr :: string
  url_rr :: "string option"
  reuseCount :: nat
  weakReasons :: "string list"
  isWeak :: bool
  risk :: Risk

definition keyOf :: "string \<Rightarrow> string \<Rightarrow> string" where
  "keyOf s u = s @ ''||'' @ u"

text \<open>
  \<^verbatim>\<open>new URL(site).hostname\<close> is the platform's URL parser; it is a parameter
  \<open>url_hostname\<close>, with \<open>None\<close> where the constructor throws.
\<close>

definition asDomainLabel :: "(string \<Rightarrow> string option) \<Rightarrow> string \<Rightarrow> string" where
  "asDomainLabel url_hostname s =
     (if test_ci_start ''http://'' s \<or> test_ci_start ''https://'' s
      then (case url_hostname s of
              Some h \<Rightarrow> if h \<noteq> [] then h else s
            | None \<Rightarrow> s)
      else s)"

definition riskLabel :: "nat \<Rightarrow> bool \<Rightarrow> Risk" where
  "riskLabel rc w =
     (if rc \<ge> 10 \<and> w then HIGH
      else if rc \<ge> 2 \<and> w then MEDIUM
      else if rc \<ge> 10 then MEDIUM
      else if w then MEDIUM
      else LOW)"

definition riskScore :: "nat \<Rightarrow> bool \<Rightarrow> nat" where
  "riskScore rc w = rc * 10 + (if w then 15 else 0)"

text \<open>
  \<open>pw\<close> is \<open>None\<close> for \<^verbatim>\<open>undefined\<close>. The threshold is an integer; the test
  \<^verbatim>\<open>password && pwLen > 0 && pwLen < minLength\<close> is kept as written.
\<close>

definition adjustWeakReasons :: "string list \<Rightarrow> string option \<Rightarrow> int \<Rightarrow> string list" where
  "adjustWeakReasons coreReasons pw minLength =
     (let pwLen = (case pw of Some p \<Rightarrow> length p | None \<Rightarrow> 0);
          out = filter (\<lambda>r. \<not> startsWith (toLowerCase r) ''length'') coreReasons
      in if (case pw of Some p \<Rightarrow> p \<noteq> [] | None \<Rightarrow> False) \<and> pwLen > 0 \<and> int pwLen < minLength
         then (''Length < '' @ toString_int minLength) # out
         else out)"

text \<open>
  The handler of the minimum-length field,
  \<^verbatim>\<open>setMinLength(Number(e.target.value || 12))\<close>. The value of a number field is the
  empty string when the field is blank or its text is no number (\<open>None\<close>), and the
  numeral typed otherwise (\<open>Some n\<close>; integers only). The field declares
  \<^verbatim>\<open>min={6}\<close> and \<^verbatim>\<open>max={64}\<close>.
\<close>

definition minLength_onChange :: "int option \<Rightarrow> int" where
  "minLength_onChange v = (case v of None \<Rightarrow> 12 | Some n \<Rightarrow> n)"

definition minLength_min :: int where
  "minLength_min = 6"

definition minLength_max :: int where
  "minLength_max = 64"

definition passwordByKey :: "Entry list \<Rightarrow> (string, string) Map" where
  "passwordByKey entries =
     fold (\<lambda>e m. Map_set m (keyOf (site e) (username e)) (password e)) entries []"

definition reuseCountByKey :: "Report \<Rightarrow> (string, nat) Map" where
  "reuseCountByKey report =
     fold (\<lambda>g m.
            let cnt = count g
            in fold (\<lambda>s m'. let k = keyOf (fst s) (snd s)
                             in if k \<noteq> ''||'' then Map_set m' k cnt else m')
                 (sites g) m)
       (reuseGroups report) []"

definition weakAdjustedByKey :: "Report \<Rightarrow> (string, string) Map \<Rightarrow> int
    \<Rightarrow> (string, string list) Map" where
  "weakAdjustedByKey report pwByKey minLength =
     fold (\<lambda>w m.
            let k = keyOf (site_wf w) (username_wf w);
                pw = Map_get pwByKey k;
                rs = adjustWeakReasons (reasons w) pw minLength
            in if length rs \<noteq> 0 then Map_set m k rs else m)
       (weakFindings report) []"

definition rowBySite :: "Row list \<Rightarrow> string \<Rightarrow> Row option" where
  "rowBySite rows s = find (\<lambda>r. (if name r \<noteq> [] then name r else url r) = s) rows"

text \<open>
  The body of the loop of \<^verbatim>\<open>allResults\<close> for one entry: \<open>None\<close> where the loop
  says \<^verbatim>\<open>continue\<close>, the pushed row otherwise.
\<close>

definition result_row :: "(string \<Rightarrow> string option) \<Rightarrow> Row list \<Rightarrow> (string, nat) Map
    \<Rightarrow> (string, string list) Map \<Rightarrow> IssueMode \<Rightarrow> string \<Rightarrow> Entry \<Rightarrow> ResultRow option" where
  "result_row url_hostname rows rcByKey waByKey issueMode query e =
     (let k = keyOf (site e) (username e);
          rc = (case Map_get rcByKey k of Some c \<Rightarrow> c | None \<Rightarrow> 0);
          wr = (case Map_get waByKey k of Some rs \<Rightarrow> rs | None \<Rightarrow> []);
          iw = (length wr > 0)
      in if issueMode = IssueReuse \<and> rc < 2 then None
         else if issueMode = IssueWeak \<and> \<not> iw then None
         else
           let u = (case rowBySite rows (site e) of
                      Some r \<Rightarrow> if url r \<noteq> [] then Some (url r) else None
                    | None \<Rightarrow> None);
               q = toLowerCase (trim query)
           in if q \<noteq> [] \<and>
                 \<not> includes_str
                     (toLowerCase (asDomainLabel url_hostname (site e) @ '' '' @ site e @ '' '' @
                        username e @ '' '' @ (case u of Some x \<Rightarrow> x | None \<Rightarrow> [])))
                     q
              then None
              else Some \<lparr>key = k, site_rr = site e,
                         domain = asDomainLabel url_hostname (site e),
                         username_rr = username e, url_rr = u, reuseCount = rc,
                         weakReasons = wr, isWeak = iw, risk = riskLabel rc iw\<rparr>)"

text \<open>
  The comparison function of \<^verbatim>\<open>results.sort\<close>. \<^verbatim>\<open>localeCompare\<close> is the platform's
  collation and a parameter.
\<close>

definition result_cmp :: "(string \<Rightarrow> string \<Rightarrow> int) \<Rightarrow> SortMode \<Rightarrow> ResultRow \<Rightarrow> ResultRow \<Rightarrow> int" where
  "result_cmp localeCompare sortMode a b =
     (if sortMode = SortDomain then localeCompare (domain a) (domain b)
      else if sortMode = SortReuseCount then int (reuseCount b) - int (reuseCount a)
      else int (riskScore (reuseCount b) (isWeak b)) - int (riskScore (reuseCount a) (isWeak a)))"

definition allResults :: "(string \<Rightarrow> string option) \<Rightarrow> (string \<Rightarrow> string \<Rightarrow> int) \<Rightarrow> Entry list
    \<Rightarrow> Row list \<Rightarrow> (string, nat) Map \<Rightarrow> (string, string list) Map \<Rightarrow> IssueMode \<Rightarrow> SortMode
    \<Rightarrow> string \<Rightarrow> ResultRow list" where
  "allResults url_hostname localeCompare entries rows rcByKey waByKey issueMode sortMode query =
     sort_by (result_cmp localeCompare sortMode)
       (List.map_filter (result_row url_hostname rows rcByKey waByKey issueMode query) entries)"

section \<open>A running example\<close>

definition demo_entries :: "Entry list" where
  "demo_entries =
     [\<lparr>site = ''mail'', username = ''ann'', password = ''hunter2''\<rparr>,
      \<lparr>site = ''bank'', username = ''ann'', password = ''Tr0ub4dor&3xyz''\<rparr>,
      \<lparr>site = ''shop'', username = ''bob'', password = ''hunter2''\<rparr>]"

section \<open>The rules of the classifier, as the specification words them\<close>

text \<open>
  The six rules in their fixed order, the label of each, and when a password violates
  each: shorter than 12; no character in a to z; none in A to Z; none in 0 to 9; no
  character outside the letters and digits; \<open>password\<close>, \<open>qwerty\<close> or \<open>1234\<close> occurring
  at some offset, case ignored.
\<close>

datatype Rule = RLength | RLowercase | RUppercase | RDigit | RSymbol | RCommon

definition rule_order :: "Rule list" where
  "rule_order = [RLength, RLowercase, RUppercase, RDigit, RSymbol, RCommon]"

fun rule_label :: "Rule \<Rightarrow> string" where
  "rule_label RLength = ''Length < 12''"
| "rule_label RLowercase = ''No lowercase''"
| "rule_label RUppercase = ''No uppercase''"
| "rule_label RDigit = ''No number''"
| "rule_label RSymbol = ''No symbol''"
| "rule_label RCommon = ''Common pattern''"

definition contains_ci :: "string \<Rightarrow> string \<Rightarrow> bool" where
  "contains_ci s p =
     (\<exists>i \<in> {0..length s}. take (length p) (drop i (map canonicalize s)) = map canonicalize p)"

fun violated :: "Rule \<Rightarrow> string \<Rightarrow> bool" where
  "violated RLength pw = (length pw < 12)"
| "violated RLowercase pw = (\<forall>c \<in> set pw. \<not> in_range CHR ''a'' CHR ''z'' c)"
| "violated RUppercase pw = (\<forall>c \<in> set pw. \<not> in_range CHR ''A'' CHR ''Z'' c)"
| "violated RDigit pw = (\<forall>c \<in> set pw. \<not> in_range CHR ''0'' CHR ''9'' c)"
| "violated RSymbol pw =
     (\<forall>c \<in> set pw. in_range CHR ''A'' CHR ''Z'' c \<or> in_range CHR ''a'' CHR ''z'' c
                     \<or> in_range CHR ''0'' CHR ''9'' c)"
| "violated RCommon pw = (\<exists>p \<in> set [''password'', ''qwerty'', ''1234'']. contains_ci pw p)"

text \<open>Two entries with one key and different passwords, and a third entry.\<close>

definition dup_entries :: "Entry list" where
  "dup_entries =
     [\<lparr>site = ''mail'', username = ''ann'', password = ''first-secret''\<rparr>,
      \<lparr>site = ''mail'', username = ''ann'', password = ''second''\<rparr>,
      \<lparr>site = ''shop'', username = ''bob'', password = ''third''\<rparr>]"

section \<open>The reuse groups, as the specification words them\<close>

text \<open>
  The distinct values of a list in the order of their first occurrence; the members of
  the group of a password, in entry order; the group itself; and the passwords that
  occur in at least two entries, in first-seen order.
\<close>

definition first_seen :: "'a list \<Rightarrow> 'a list" where
  "first_seen xs = fold (\<lambda>x acc. if x \<in> set acc then acc else acc @ [x]) xs []"

definition members :: "Entry list \<Rightarrow> string \<Rightarrow> (string \<times> string) list" where
  "members es p = map (\<lambda>e. (site e, username e)) (filter (\<lambda>e. password e = p) es)"

definition group_of :: "Entry list \<Rightarrow> string \<Rightarrow> ReuseGroup" where
  "group_of es p = \<lparr>count = length (members es p), sites = members es p\<rparr>"

definition reused_passwords :: "Entry list \<Rightarrow> string list" where
  "reused_passwords es =
     filter (\<lambda>p. 2 \<le> length (filter (\<lambda>e. password e = p) es)) (first_seen (map password es))"

definition group_entries :: "Entry list" where
  "group_entries =
     [\<lparr>site = ''a'', username = ''u1'', password = ''pw-one''\<rparr>,
      \<lparr>site = ''b'', username = ''u2'', password = ''pw-two''\<rparr>,
      \<lparr>site = ''c'', username = ''u3'', password = ''PW-one''\<rparr>,
      \<lparr>site = ''d'', username = ''u4'', password = ''pw-two''\<rparr>,
      \<lparr>site = ''e'', username = ''u5'', password = ''pw-one''\<rparr>,
      \<lparr>site = ''f'', username = ''u6'', password = ''pw-three''\<rparr>,
      \<lparr>site = ''g'', username = ''u7'', password = ''pw-three''\<rparr>,
      \<lparr>site = ''h'', username = ''u8'', password = ''pw-three''\<rparr>]"

section \<open>The displayed rows, as the specification words them\<close>

text \<open>
  The candidate row of an entry (its reuse count and adjusted reasons looked up, the risk
  label computed), the predicate of each issue mode, the search filter on a row, and the
  score a row is sorted by. Then a sample: no URL parser result, a collation that
  compares everything equal, three entries and three rows.
\<close>

definition candidate_row :: "(string \<Rightarrow> string option) \<Rightarrow> Row list \<Rightarrow> (string, nat) Map
    \<Rightarrow> (string, string list) Map \<Rightarrow> Entry \<Rightarrow> ResultRow" where
  "candidate_row url_hostname rows rcByKey waByKey e =
     (let k = keyOf (site e) (username e);
          rc = (case Map_get rcByKey k of Some c \<Rightarrow> c | None \<Rightarrow> 0);
          wr = (case Map_get waByKey k of Some rs \<Rightarrow> rs | None \<Rightarrow> [])
      in \<lparr>key = k, site_rr = site e, domain = asDomainLabel url_hostname (site e),
          username_rr = username e,
          url_rr = (case rowBySite rows (site e) of
                      Some r \<Rightarrow> if url r \<noteq> [] then Some (url r) else None
                    | None \<Rightarrow> None),
          reuseCount = rc, weakReasons = wr, isWeak = (wr \<noteq> []),
          risk = riskLabel rc (wr \<noteq> [])\<rparr>)"

fun issue_pass :: "IssueMode \<Rightarrow> ResultRow \<Rightarrow> bool" where
  "issue_pass IssueAll r = True"
| "issue_pass IssueReuse r = (reuseCount r \<ge> 2)"
| "issue_pass IssueWeak r = isWeak r"

definition search_pass :: "string \<Rightarrow> ResultRow \<Rightarrow> bool" where
  "search_pass query r =
     (toLowerCase (trim query) = [] \<or>
      sublist (toLowerCase (trim query))
        (toLowerCase (domain r @ '' '' @ site_rr r @ '' '' @ username_rr r @ '' '' @
           (case url_rr r of Some u \<Rightarrow> u | None \<Rightarrow> []))))"

definition risk_score_of :: "ResultRow \<Rightarrow> nat" where
  "risk_score_of r = riskScore (reuseCount r) (isWeak r)"

definition hostname_none :: "string \<Rightarrow> string option" where
  "hostname_none s = None"

definition compare_equal :: "string \<Rightarrow> string \<Rightarrow> int" where
  "compare_equal a b = 0"

definition sort_entries :: "Entry list" where
  "sort_entries =
     [\<lparr>site = ''c'', username = ''w'', password = ''Xk3!pqLm92#vbT''\<rparr>,
      \<lparr>site = ''b'', username = ''v'', password = ''Zr8?hnWd41$cyU''\<rparr>,
      \<lparr>site = ''a'', username = ''u'', password = ''Qe5&ktGs07@mzR''\<rparr>]"

definition sort_reuse :: "(string, nat) Map" where
  "sort_reuse = [(''a||u'', 5), (''c||w'', 1)]"

definition sort_weak :: "(string, string list) Map" where
  "sort_weak = [(''b||v'', [''No symbol''])]"

definition row_a :: ResultRow where
  "row_a = \<lparr>key = ''a||u'', site_rr = ''a'', domain = ''a'', username_rr = ''u'', url_rr = None,
            reuseCount = 5, weakReasons = [], isWeak = False, risk = LOW\<rparr>"

definition row_b :: ResultRow where
  "row_b = \<lparr>key = ''b||v'', site_rr = ''b'', domain = ''b'', username_rr = ''v'', url_rr = None,
            reuseCount = 0, weakReasons = [''No symbol''], isWeak = True, risk = MEDIUM\<rparr>"

definition row_c :: ResultRow where
  "row_c = \<lparr>key = ''c||w'', site_rr = ''c'', domain = ''c'', username_rr = ''w'', url_rr = None,
            reuseCount = 1, weakReasons = [], isWeak = False, risk = LOW\<rparr>"

section \<open>Entries for the live minimum length\<close>

text \<open>
  Two passwords of 14 characters: one with all four character classes and no common
  pattern, one without a symbol. Then the reasons left when the length reasons are
  removed.
\<close>

definition strong_entry :: Entry where
  "strong_entry = \<lparr>site = ''bank'', username = ''ann'', password = ''Abcdefghijkl1!''\<rparr>"

definition nosymbol_entry :: Entry where
  "nosymbol_entry = \<lparr>site = ''shop'', username = ''bob'', password = ''Abcdefghijkl12''\<rparr>"

definition strip_length :: "string list \<Rightarrow> string list" where
  "strip_length rs = filter (\<lambda>r. \<not> startsWith (toLowerCase r) ''length'') rs"

text \<open>One round of the loop of the adjusted lookup, on the three fields of a finding it reads.\<close>

definition adjust_step :: "(string, string) Map \<Rightarrow> int \<Rightarrow> string \<times> string \<times> string list
    \<Rightarrow> (string, string list) Map \<Rightarrow> (string, string list) Map" where
  "adjust_step pwk n t m =
     (case t of (s, u, rs) \<Rightarrow>
        if adjustWeakReasons rs (Map_get pwk (keyOf s u)) n \<noteq> []
        then Map_set m (keyOf s u) (adjustWeakReasons rs (Map_get pwk (keyOf s u)) n) else m)"


section \<open>Properties of the report\<close>

lemma foldl_add_sum_list:
  "foldl (\<lambda>acc g. acc + f g) (a::nat) xs = a + sum_list (map f xs)"
  by (induction xs arbitrary: a) simp_all

lemma analyze_demo:
  "analyze demo_entries =
     \<lparr>summary = \<lparr>total = 3, weak = 2, reusedGroups = 1, reusedAccounts = 2\<rparr>,
      weakFindings =
        [\<lparr>index = 0, site_wf = ''mail'', username_wf = ''ann'',
          reasons = [''Length < 12'', ''No uppercase'', ''No symbol'']\<rparr>,
         \<lparr>index = 2, site_wf = ''shop'', username_wf = ''bob'',
          reasons = [''Length < 12'', ''No uppercase'', ''No symbol'']\<rparr>],
      reuseGroups = [\<lparr>count = 2, sites = [(''mail'', ''ann''), (''shop'', ''bob'')]\<rparr>]\<rparr>"
  by code_simp

text \<open>
  Claim C1. For every entry sequence the summary of the report counts what the report
  holds: \<open>total\<close> is the number of entries, \<open>weak\<close> the number of weak findings,
  \<open>reusedGroups\<close> the number of reuse groups and \<open>reusedAccounts\<close> the sum of the
  groups' counts.
\<close>

theorem analyze_summary:
  "total (summary (analyze es)) = length es
   \<and> weak (summary (analyze es)) = length (weakFindings (analyze es))
   \<and> reusedGroups (summary (analyze es)) = length (reuseGroups (analyze es))
   \<and> reusedAccounts (summary (analyze es)) = sum_list (map count (reuseGroups (analyze es)))"
  by (simp add: analyze_def Let_def foldl_add_sum_list)

theorem analyze_summary_witness:
  "total (summary (analyze demo_entries)) = 3
   \<and> length (weakFindings (analyze demo_entries)) = 2
   \<and> length (reuseGroups (analyze demo_entries)) = 1
   \<and> reusedAccounts (summary (analyze demo_entries)) = 2"
  using analyze_summary [of demo_entries] unfolding analyze_demo by simp

text \<open>
  Claim C9. On the empty entry sequence \<open>analyze\<close> returns the report whose four
  summary counts are zero and whose findings and groups are empty. The model of
  \<open>analyze\<close> is a total function with no error value: the source has no statement that
  throws on an entry sequence.
\<close>

theorem analyze_empty:
  "analyze [] =
     \<lparr>summary = \<lparr>total = 0, weak = 0, reusedGroups = 0, reusedAccounts = 0\<rparr>,
      weakFindings = [], reuseGroups = []\<rparr>"
  by (simp add: analyze_def weak_checks_def reuse_groups_def group_by_password_def sort_by_def
      List.map_filter_def)

section \<open>Properties of the risk scorer\<close>

text \<open>
  Claim C3. For every reuse count and weakness flag the score is ten times the count
  plus fifteen when weak, and the label is the first matching row of the decision table:
  HIGH for a count of at least 10 with weakness, MEDIUM for a count of at least 2 with
  weakness, MEDIUM for a count of at least 10 without weakness, MEDIUM for weakness with
  a count below 2, and LOW otherwise. The three labels partition the pairs.
\<close>

theorem risk_scorer_table:
  "riskScore rc w = rc * 10 + (if w then 15 else 0)
   \<and> riskLabel rc w =
       (if rc \<ge> 10 \<and> w then HIGH
        else if rc \<ge> 2 \<and> w then MEDIUM
        else if rc \<ge> 10 \<and> \<not> w then MEDIUM
        else if w \<and> rc < 2 then MEDIUM
        else LOW)
   \<and> (riskLabel rc w = HIGH \<longleftrightarrow> rc \<ge> 10 \<and> w)
   \<and> (riskLabel rc w = MEDIUM \<longleftrightarrow> (w \<and> rc < 10) \<or> (\<not> w \<and> rc \<ge> 10))
   \<and> (riskLabel rc w = LOW \<longleftrightarrow> \<not> w \<and> rc < 10)"
  by (auto simp: riskScore_def riskLabel_def)

theorem risk_scorer_table_witness:
  "riskLabel 10 True = HIGH \<and> riskLabel 3 True = MEDIUM \<and> riskLabel 10 False = MEDIUM
   \<and> riskLabel 0 True = MEDIUM \<and> riskLabel 0 False = LOW
   \<and> riskScore 5 False = 50 \<and> riskScore 0 True = 15 \<and> riskScore 1 False = 10"
  using risk_scorer_table [of 10 True] risk_scorer_table [of 3 True]
    risk_scorer_table [of 10 False] risk_scorer_table [of 0 True] risk_scorer_table [of 0 False]
    risk_scorer_table [of 5 False] risk_scorer_table [of 1 False]
  by simp

section \<open>Properties of the weakness classifier\<close>

lemma sublist_iff_offset:
  "sublist xs ys \<longleftrightarrow> (\<exists>i \<in> {0..length ys}. take (length xs) (drop i ys) = xs)"
proof
  assume "sublist xs ys"
  then obtain ps ss where ys: "ys = ps @ xs @ ss"
    by (auto simp: sublist_def)
  have "take (length xs) (drop (length ps) ys) = xs"
    by (simp add: ys)
  moreover have "length ps \<in> {0..length ys}"
    by (simp add: ys)
  ultimately show "\<exists>i \<in> {0..length ys}. take (length xs) (drop i ys) = xs"
    by blast
next
  assume "\<exists>i \<in> {0..length ys}. take (length xs) (drop i ys) = xs"
  then obtain i where i: "take (length xs) (drop i ys) = xs"
    by blast
  have "ys = take i ys @ drop i ys"
    by (simp only: append_take_drop_id)
  also have "drop i ys = take (length xs) (drop i ys) @ drop (length xs) (drop i ys)"
    by (simp only: append_take_drop_id)
  finally have "ys = take i ys @ xs @ drop (length xs) (drop i ys)"
    by (simp only: i)
  then show "sublist xs ys"
    unfolding sublist_def by blast
qed

lemma test_ci_contains: "test_ci p s = contains_ci s p"
  by (simp add: test_ci_def contains_ci_def sublist_iff_offset)

lemma reasons_of_rules:
  "reasons_of pw = map rule_label (filter (\<lambda>r. violated r pw) rule_order)"
  by (simp add: reasons_of_def rule_order_def hasLower_def hasUpper_def hasDigit_def
      hasSymbol_def list_ex_iff test_ci_contains)

lemma reasons_of_Nil_iff: "reasons_of pw = [] \<longleftrightarrow> (\<forall>r. \<not> violated r pw)"
proof -
  have "reasons_of pw = [] \<longleftrightarrow> (\<forall>r \<in> set rule_order. \<not> violated r pw)"
    by (simp add: reasons_of_rules filter_empty_conv)
  moreover have "set rule_order = UNIV"
    using Rule.exhaust by (auto simp: rule_order_def)
  ultimately show ?thesis by simp
qed

lemma enumerate_nth: "enumerate 0 xs = map (\<lambda>i. (i, xs ! i)) [0..<length xs]"
  by (rule nth_equalityI) (simp_all add: nth_enumerate_eq)

lemma weak_checks_eq:
  "weak_checks es =
     map (\<lambda>i. \<lparr>index = i, site_wf = site (es ! i), username_wf = username (es ! i),
               reasons = reasons_of (password (es ! i))\<rparr>)
       (filter (\<lambda>i. reasons_of (password (es ! i)) \<noteq> []) [0..<length es])"
proof -
  let ?idx = "[0..<length es]"
  let ?P = "\<lambda>i. reasons_of (password (es ! i)) \<noteq> []"
  have "filter (\<lambda>x. x \<noteq> None) (map weakFinding_of (enumerate 0 es)) =
        map (\<lambda>i. weakFinding_of (i, es ! i)) (filter ?P ?idx)"
    by (simp add: enumerate_nth filter_map o_def weakFinding_of_def Let_def)
  then show ?thesis
    by (simp add: weak_checks_def List.map_filter_def weakFinding_of_def Let_def)
qed

lemma weakFindings_analyze: "weakFindings (analyze es) = weak_checks es"
  by (simp add: analyze_def Let_def)


lemma reasons_of_demo:
  "reasons_of ''aaaaaaaaaaaa'' = [''No uppercase'', ''No number'', ''No symbol'']"
  by code_simp

text \<open>
  Claim C4. For every password, the empty one included, the reasons pushed by the
  classifier are the labels of exactly the violated rules, in the fixed order length,
  lowercase, uppercase, digit, symbol, common pattern. The empty password gets the five
  length and character-class reasons and not the common-pattern one. An entry has a weak
  finding exactly when its password violates some rule, and no finding has an empty
  reason list.
\<close>

theorem classifier_reasons:
  "reasons_of pw = map rule_label (filter (\<lambda>r. violated r pw) rule_order)
   \<and> reasons_of [] =
       [''Length < 12'', ''No lowercase'', ''No uppercase'', ''No number'', ''No symbol'']
   \<and> (i < length es \<longrightarrow>
        ((\<exists>w \<in> set (weakFindings (analyze es)). index w = i)
           \<longleftrightarrow> (\<exists>r. violated r (password (es ! i)))))
   \<and> (\<forall>w \<in> set (weakFindings (analyze es)). reasons w \<noteq> [])"
proof (intro conjI impI)
  show "reasons_of pw = map rule_label (filter (\<lambda>r. violated r pw) rule_order)"
    by (rule reasons_of_rules)
  show "reasons_of [] =
       [''Length < 12'', ''No lowercase'', ''No uppercase'', ''No number'', ''No symbol'']"
    by (simp add: reasons_of_def hasLower_def hasUpper_def hasDigit_def hasSymbol_def
        test_ci_def)
  show "\<forall>w \<in> set (weakFindings (analyze es)). reasons w \<noteq> []"
    by (auto simp: weakFindings_analyze weak_checks_eq)
next
  assume i: "i < length es"
  have "(\<exists>w \<in> set (weak_checks es). index w = i) \<longleftrightarrow> reasons_of (password (es ! i)) \<noteq> []"
    using i by (auto simp: weak_checks_eq)
  then show "(\<exists>w \<in> set (weakFindings (analyze es)). index w = i)
           \<longleftrightarrow> (\<exists>r. violated r (password (es ! i)))"
    by (simp add: weakFindings_analyze reasons_of_Nil_iff)
qed

theorem classifier_reasons_witness:
  "map rule_label (filter (\<lambda>r. violated r ''aaaaaaaaaaaa'') rule_order) =
     [''No uppercase'', ''No number'', ''No symbol'']
   \<and> 1 < length demo_entries
   \<and> \<not> (\<exists>r. violated r (password (demo_entries ! 1)))"
proof -
  have len: "1 < length demo_entries"
    by (simp add: demo_entries_def)
  have "\<not> (\<exists>w \<in> set (weakFindings (analyze demo_entries)). index w = 1)"
    unfolding analyze_demo by simp
  then show ?thesis
    using classifier_reasons [of "''aaaaaaaaaaaa''" 1 demo_entries] len
    by (simp add: reasons_of_demo)
qed

text \<open>
  Claim C10. For every entry sequence the weak findings are, in input order, the
  findings of the entries with a non-empty reason list: each carries as \<open>index\<close> the
  zero-based position of its entry and that entry's site and username, and the indices
  are strictly ascending, so an entry has at most one finding.
\<close>

theorem weakFindings_index:
  "weakFindings (analyze es) =
     map (\<lambda>i. \<lparr>index = i, site_wf = site (es ! i), username_wf = username (es ! i),
               reasons = reasons_of (password (es ! i))\<rparr>)
       (filter (\<lambda>i. reasons_of (password (es ! i)) \<noteq> []) [0..<length es])
   \<and> sorted_wrt (<) (map index (weakFindings (analyze es)))
   \<and> (\<forall>w \<in> set (weakFindings (analyze es)).
         index w < length es \<and> site_wf w = site (es ! index w)
         \<and> username_wf w = username (es ! index w)
         \<and> reasons w = reasons_of (password (es ! index w)))"
proof (intro conjI)
  show "weakFindings (analyze es) =
     map (\<lambda>i. \<lparr>index = i, site_wf = site (es ! i), username_wf = username (es ! i),
               reasons = reasons_of (password (es ! i))\<rparr>)
       (filter (\<lambda>i. reasons_of (password (es ! i)) \<noteq> []) [0..<length es])"
    by (simp only: weakFindings_analyze weak_checks_eq)
  have "map index (weak_checks es) =
        filter (\<lambda>i. reasons_of (password (es ! i)) \<noteq> []) [0..<length es]"
    by (simp add: weak_checks_eq o_def)
  then show "sorted_wrt (<) (map index (weakFindings (analyze es)))"
    by (simp add: weakFindings_analyze sorted_wrt_filter)
  show "\<forall>w \<in> set (weakFindings (analyze es)).
         index w < length es \<and> site_wf w = site (es ! index w)
         \<and> username_wf w = username (es ! index w)
         \<and> reasons w = reasons_of (password (es ! index w))"
    by (auto simp: weakFindings_analyze weak_checks_eq)
qed

theorem weakFindings_index_witness:
  "map index (weakFindings (analyze demo_entries)) = [0, 2]
   \<and> sorted_wrt (<) (map index (weakFindings (analyze demo_entries)))
   \<and> list_all (\<lambda>w. index w < length demo_entries) (weakFindings (analyze demo_entries))"
proof -
  have "map index (weakFindings (analyze demo_entries)) = [0, 2]"
    unfolding analyze_demo by simp
  moreover have "list_all (\<lambda>w. index w < length demo_entries)
      (weakFindings (analyze demo_entries))"
    using weakFindings_index [of demo_entries] unfolding list_all_iff by blast
  moreover have "sorted_wrt (<) (map index (weakFindings (analyze demo_entries)))"
    using weakFindings_index [of demo_entries] by blast
  ultimately show ?thesis
    by blast
qed

section \<open>Properties of the projector's lookups\<close>

lemma Map_get_set: "Map_get (Map_set m k v) k' = (if k' = k then Some v else Map_get m k')"
  by (simp add: Map_get_def Map_set_def update_conv')

lemma passwordByKey_snoc:
  "passwordByKey (es @ [e]) = Map_set (passwordByKey es) (keyOf (site e) (username e)) (password e)"
  by (simp add: passwordByKey_def)

lemma passwordByKey_get:
  "Map_get (passwordByKey es) k =
     (case filter (\<lambda>e. keyOf (site e) (username e) = k) es of
        [] \<Rightarrow> None
      | f # fs \<Rightarrow> Some (password (last (f # fs))))"
proof (induction es rule: rev_induct)
  case Nil
  show ?case by (simp add: passwordByKey_def Map_get_def)
next
  case (snoc e es)
  show ?case
    by (cases "filter (\<lambda>e. keyOf (site e) (username e) = k) es")
      (auto simp: passwordByKey_snoc Map_get_set snoc.IH)
qed

lemma last_of_snoc:
  "(case fs @ [e] of [] \<Rightarrow> None | f # r \<Rightarrow> Some (g (last (f # r)))) = Some (g e)"
  by (cases fs) simp_all

text \<open>
  Claim C8. The password lookup holds, for a key, the password of the last entry of the
  sequence with that key. So when two entries share site and username and no entry after
  the second has their key, the lookup gives the second entry's password, whatever the
  first entry's password is.
\<close>

theorem passwordByKey_last_write_wins:
  "Map_get (passwordByKey es) k =
     (case filter (\<lambda>e. keyOf (site e) (username e) = k) es of
        [] \<Rightarrow> None
      | f # fs \<Rightarrow> Some (password (last (f # fs))))
   \<and> (site ea = site eb \<and> username ea = username eb
        \<and> (\<forall>z \<in> set zs. keyOf (site z) (username z) \<noteq> keyOf (site eb) (username eb))
        \<longrightarrow> Map_get (passwordByKey (xs @ ea # ys @ eb # zs)) (keyOf (site ea) (username ea))
              = Some (password eb))"
proof (intro conjI impI)
  show "Map_get (passwordByKey es) k =
     (case filter (\<lambda>e. keyOf (site e) (username e) = k) es of
        [] \<Rightarrow> None
      | f # fs \<Rightarrow> Some (password (last (f # fs))))"
    by (rule passwordByKey_get)
next
  assume a: "site ea = site eb \<and> username ea = username eb
        \<and> (\<forall>z \<in> set zs. keyOf (site z) (username z) \<noteq> keyOf (site eb) (username eb))"
  let ?k = "keyOf (site eb) (username eb)"
  let ?P = "\<lambda>e. keyOf (site e) (username e) = ?k"
  have zs: "filter ?P zs = []"
    using a by (auto simp: filter_empty_conv)
  have "filter ?P (xs @ ea # ys @ eb # zs) = (filter ?P (xs @ ea # ys)) @ [eb]"
    by (simp add: zs)
  then have "Map_get (passwordByKey (xs @ ea # ys @ eb # zs)) ?k = Some (password eb)"
    by (simp only: passwordByKey_get last_of_snoc)
  then show "Map_get (passwordByKey (xs @ ea # ys @ eb # zs)) (keyOf (site ea) (username ea))
              = Some (password eb)"
    using a by simp
qed

theorem passwordByKey_last_write_wins_witness:
  "Map_get (passwordByKey dup_entries) ''mail||ann'' = Some ''second''"
proof -
  let ?e1 = "\<lparr>site = ''mail'', username = ''ann'', password = ''first-secret''\<rparr>"
  let ?e2 = "\<lparr>site = ''mail'', username = ''ann'', password = ''second''\<rparr>"
  let ?e3 = "\<lparr>site = ''shop'', username = ''bob'', password = ''third''\<rparr>"
  have "Map_get (passwordByKey ([] @ ?e1 # [] @ ?e2 # [?e3])) (keyOf (site ?e1) (username ?e1))
        = Some (password ?e2)"
    using passwordByKey_last_write_wins [where ea = ?e1 and eb = ?e2 and zs = "[?e3]"
        and xs = "[]" and ys = "[]"]
    by (simp add: keyOf_def)
  then show ?thesis
    by (simp add: dup_entries_def keyOf_def)
qed

section \<open>Properties of the sort\<close>

text \<open>
  With a comparison function \<open>f b - f a\<close> the sort is the library's stable sort on the
  key \<open>- f\<close>: a permutation, descending in \<open>f\<close>, keeping the order of equal keys.
\<close>

lemma insert_by_insort_key:
  "insert_by (\<lambda>a b. f b - f a) x ys = insort_key (\<lambda>a. - f a) x ys"
  for f :: "'a \<Rightarrow> int"
  by (induction ys) simp_all

lemma sort_by_sort_key:
  "sort_by (\<lambda>a b. f b - f a) xs = sort_key (\<lambda>a. - f a) xs"
  for f :: "'a \<Rightarrow> int"
  by (induction xs) (simp_all add: sort_by_def sort_key_def insert_by_insort_key)

lemma sort_by_mset: "mset (sort_by (\<lambda>a b. f b - f a) xs) = mset xs"
  for f :: "'a \<Rightarrow> int"
  by (simp add: sort_by_sort_key)

lemma sort_by_descending:
  "sorted_wrt (\<lambda>a b. f a \<ge> f b) (sort_by (\<lambda>a b. f b - f a) xs)"
  for f :: "'a \<Rightarrow> int"
proof -
  have "sorted (map (\<lambda>a. - f a) (sort_key (\<lambda>a. - f a) xs))"
    by (rule sorted_sort_key)
  then show ?thesis
    by (simp add: sort_by_sort_key sorted_map)
qed

lemma sort_by_stable:
  "filter (\<lambda>a. f a = n) (sort_by (\<lambda>a b. f b - f a) xs) = filter (\<lambda>a. f a = n) xs"
  for f :: "'a \<Rightarrow> int"
  using sort_key_stable [of "\<lambda>a. - f a" "- n" xs]
  by (simp add: sort_by_sort_key)

section \<open>Properties of the reuse grouper\<close>

lemma first_seen_snoc:
  "first_seen (xs @ [x]) = (if x \<in> set (first_seen xs) then first_seen xs else first_seen xs @ [x])"
  by (simp add: first_seen_def)

lemma first_seen_Nil: "first_seen [] = []"
  by (simp add: first_seen_def)

lemma set_first_seen: "set (first_seen xs) = set xs"
  by (induction xs rule: rev_induct) (auto simp: first_seen_snoc first_seen_Nil)

lemma distinct_first_seen: "distinct (first_seen xs)"
  by (induction xs rule: rev_induct) (auto simp: first_seen_snoc first_seen_Nil)

lemma update_absent: "k \<notin> fst ` set al \<Longrightarrow> AList.update k v al = al @ [(k, v)]"
  by (induction al) auto

lemma update_last:
  "k \<notin> fst ` set al \<Longrightarrow> AList.update k v (al @ [(k, w)]) = al @ [(k, v)]"
  by (induction al) auto

lemma map_of_last:
  "k \<notin> fst ` set al \<Longrightarrow> map_of (al @ [(k, w)]) k = Some w"
  by (induction al) auto

lemma update_present:
  "distinct ps \<Longrightarrow> k \<in> set ps \<Longrightarrow>
   AList.update k v (map (\<lambda>p. (p, f p)) ps) = map (\<lambda>p. (p, if p = k then v else f p)) ps"
  by (induction ps) (auto simp: update_absent image_iff intro!: map_idI [symmetric])

lemma map_of_graph: "map_of (map (\<lambda>p. (p, f p)) ps) k = (if k \<in> set ps then Some (f k) else None)"
  by (induction ps) auto

lemma group_step_absent:
  assumes "\<not> Map_has m (password e)"
  shows "group_step e m = m @ [(password e, [(site e, username e)])]"
proof -
  have notin: "password e \<notin> fst ` set m"
    using assms by (simp add: Map_has_def map_of_eq_None_iff)
  have m1: "Map_set m (password e) [] = m @ [(password e, [])]"
    by (simp add: Map_set_def update_absent [OF notin])
  have get: "Map_get (m @ [(password e, [])]) (password e) = Some []"
    unfolding Map_get_def by (rule map_of_last [OF notin])
  have "Map_push (m @ [(password e, [])]) (password e) (site e, username e) =
        m @ [(password e, [(site e, username e)])]"
    unfolding Map_push_def get
    by (simp add: Map_set_def update_last [OF notin])
  then show ?thesis
    using assms by (simp add: group_step_def Let_def m1)
qed

lemma group_step_present:
  assumes "Map_get m (password e) = Some xs"
  shows "group_step e m = Map_set m (password e) (xs @ [(site e, username e)])"
proof -
  have "Map_has m (password e)"
    using assms by (simp add: Map_has_def Map_get_def)
  then show ?thesis
    using assms by (simp add: group_step_def Let_def Map_push_def)
qed

lemma members_snoc:
  "members (es @ [e]) p = (if password e = p then members es p @ [(site e, username e)] else members es p)"
  by (simp add: members_def)

lemma members_Nil_iff: "members es p = [] \<longleftrightarrow> p \<notin> password ` set es"
  by (auto simp: members_def filter_empty_conv)

lemma group_by_password_snoc:
  "group_by_password (es @ [e]) = group_step e (group_by_password es)"
  by (simp add: group_by_password_def)

lemma group_by_password_eq:
  "group_by_password es = map (\<lambda>p. (p, members es p)) (first_seen (map password es))"
proof (induction es rule: rev_induct)
  case Nil
  show ?case by (simp add: group_by_password_def first_seen_Nil)
next
  case (snoc e es)
  let ?ps = "first_seen (map password es)"
  let ?k = "password e"
  let ?m = "(site e, username e)"
  show ?case
  proof (cases "?k \<in> set ?ps")
    case True
    have "group_step e (map (\<lambda>p. (p, members es p)) ?ps) =
          map (\<lambda>p. (p, if p = ?k then members es ?k @ [?m] else members es p)) ?ps"
    proof -
      have "Map_get (map (\<lambda>p. (p, members es p)) ?ps) ?k = Some (members es ?k)"
        using True by (simp add: Map_get_def map_of_graph)
      then show ?thesis
        using True
        by (simp add: group_step_present Map_set_def update_present distinct_first_seen)
    qed
    also have "\<dots> = map (\<lambda>p. (p, members (es @ [e]) p)) ?ps"
      by (auto simp: members_snoc)
    finally show ?thesis
      using True by (simp add: group_by_password_snoc snoc.IH first_seen_snoc)
  next
    case False
    then have nil: "members es ?k = []"
      by (simp add: members_Nil_iff set_first_seen)
    have "group_step e (map (\<lambda>p. (p, members es p)) ?ps) =
          map (\<lambda>p. (p, members es p)) ?ps @ [(?k, [?m])]"
    proof -
      have "\<not> Map_has (map (\<lambda>p. (p, members es p)) ?ps) ?k"
        using False by (simp add: Map_has_def map_of_graph)
      then show ?thesis
        by (rule group_step_absent)
    qed
    also have "\<dots> = map (\<lambda>p. (p, members (es @ [e]) p)) (?ps @ [?k])"
      using False by (auto simp: members_snoc nil)
    finally show ?thesis
      using False by (simp add: group_by_password_snoc snoc.IH first_seen_snoc)
  qed
qed

lemma length_members: "length (members es p) = length (filter (\<lambda>e. password e = p) es)"
  by (simp add: members_def)

lemma reuse_groups_eq:
  "reuse_groups es = sort_by count_desc (map (group_of es) (reused_passwords es))"
proof -
  have "List.map_filter
          (\<lambda>(k, ss). if length ss \<ge> 2 then Some \<lparr>count = length ss, sites = ss\<rparr> else None)
          (map (\<lambda>p. (p, members es p)) ps) =
        map (group_of es) (filter (\<lambda>p. 2 \<le> length (filter (\<lambda>e. password e = p) es)) ps)" for ps
    by (induction ps) (simp_all add: group_of_def length_members)
  then show ?thesis
    by (simp add: reuse_groups_def group_by_password_eq reused_passwords_def)
qed


lemma count_desc_key: "count_desc = (\<lambda>a b. int (count b) - int (count a))"
  by (simp add: fun_eq_iff count_desc_def)

lemma reuseGroups_analyze: "reuseGroups (analyze es) = reuse_groups es"
  by (simp add: analyze_def Let_def)

lemma reused_passwords_set:
  "distinct (reused_passwords es)
   \<and> set (reused_passwords es) = {p. 2 \<le> length (filter (\<lambda>e. password e = p) es)}"
proof -
  have "p \<in> password ` set es" if "2 \<le> length (filter (\<lambda>e. password e = p) es)" for p
  proof -
    have "filter (\<lambda>e. password e = p) es \<noteq> []"
      using that by auto
    then show ?thesis
      by (auto simp: filter_empty_conv)
  qed
  then show ?thesis
    by (auto simp: reused_passwords_def distinct_first_seen set_first_seen)
qed

text \<open>
  Claim C5. For every entry sequence the reuse groups are exactly the groups of the
  distinct passwords occurring in at least two entries, one group for each (passwords
  compared exactly, so case matters); the count of a group is the length of its member
  list (and at least 2), its members are in entry order; the groups are in descending
  order of count, and the groups of one count stand in the first-seen order of their
  passwords.
\<close>

theorem reuse_grouper:
  "mset (reuseGroups (analyze es)) = mset (map (group_of es) (reused_passwords es))
   \<and> distinct (reused_passwords es)
   \<and> set (reused_passwords es) = {p. 2 \<le> length (filter (\<lambda>e. password e = p) es)}
   \<and> (\<forall>g \<in> set (reuseGroups (analyze es)). count g = length (sites g) \<and> 2 \<le> count g)
   \<and> sorted_wrt (\<lambda>a b. count a \<ge> count b) (reuseGroups (analyze es))
   \<and> (\<forall>n. filter (\<lambda>g. count g = n) (reuseGroups (analyze es)) =
            filter (\<lambda>g. count g = n) (map (group_of es) (reused_passwords es)))"
proof -
  let ?gs = "map (group_of es) (reused_passwords es)"
  have eq: "reuseGroups (analyze es) = sort_by (\<lambda>a b. int (count b) - int (count a)) ?gs"
    by (simp add: reuseGroups_analyze reuse_groups_eq count_desc_key)
  have m: "mset (reuseGroups (analyze es)) = mset ?gs"
    unfolding eq by (rule sort_by_mset)
  have "\<forall>g \<in> set ?gs. count g = length (sites g) \<and> 2 \<le> count g"
    by (auto simp: group_of_def reused_passwords_def length_members)
  moreover have "set (reuseGroups (analyze es)) = set ?gs"
    using m by (rule mset_eq_setD)
  ultimately have c: "\<forall>g \<in> set (reuseGroups (analyze es)). count g = length (sites g) \<and> 2 \<le> count g"
    by (simp only:)
  have "sorted_wrt (\<lambda>a b. int (count a) \<ge> int (count b)) (reuseGroups (analyze es))"
    unfolding eq by (rule sort_by_descending)
  then have s: "sorted_wrt (\<lambda>a b. count a \<ge> count b) (reuseGroups (analyze es))"
    by simp
  have st: "filter (\<lambda>g. count g = n) (reuseGroups (analyze es)) = filter (\<lambda>g. count g = n) ?gs" for n
    using sort_by_stable [of "\<lambda>g. int (count g)" "int n" ?gs]
    unfolding eq by simp
  show ?thesis
    using m c s st reused_passwords_set by blast
qed

lemma reuse_groups_demo:
  "reuseGroups (analyze group_entries) =
     [\<lparr>count = 3, sites = [(''f'', ''u6''), (''g'', ''u7''), (''h'', ''u8'')]\<rparr>,
      \<lparr>count = 2, sites = [(''a'', ''u1''), (''e'', ''u5'')]\<rparr>,
      \<lparr>count = 2, sites = [(''b'', ''u2''), (''d'', ''u4'')]\<rparr>]"
  by code_simp

theorem reuse_grouper_witness:
  "reuseGroups (analyze group_entries) =
     [\<lparr>count = 3, sites = [(''f'', ''u6''), (''g'', ''u7''), (''h'', ''u8'')]\<rparr>,
      \<lparr>count = 2, sites = [(''a'', ''u1''), (''e'', ''u5'')]\<rparr>,
      \<lparr>count = 2, sites = [(''b'', ''u2''), (''d'', ''u4'')]\<rparr>]
   \<and> filter (\<lambda>g. count g = 2) (map (group_of group_entries) (reused_passwords group_entries)) =
     [\<lparr>count = 2, sites = [(''a'', ''u1''), (''e'', ''u5'')]\<rparr>,
      \<lparr>count = 2, sites = [(''b'', ''u2''), (''d'', ''u4'')]\<rparr>]
   \<and> list_all (\<lambda>g. count g = length (sites g)) (reuseGroups (analyze group_entries))"
proof -
  note t = reuse_grouper [of group_entries]
  from t have "filter (\<lambda>g. count g = 2) (map (group_of group_entries) (reused_passwords group_entries)) =
      filter (\<lambda>g. count g = 2) (reuseGroups (analyze group_entries))"
    by simp
  also have "\<dots> = [\<lparr>count = 2, sites = [(''a'', ''u1''), (''e'', ''u5'')]\<rparr>,
      \<lparr>count = 2, sites = [(''b'', ''u2''), (''d'', ''u4'')]\<rparr>]"
    unfolding reuse_groups_demo by simp
  finally have ties: "filter (\<lambda>g. count g = 2) (map (group_of group_entries) (reused_passwords group_entries)) =
      [\<lparr>count = 2, sites = [(''a'', ''u1''), (''e'', ''u5'')]\<rparr>,
       \<lparr>count = 2, sites = [(''b'', ''u2''), (''d'', ''u4'')]\<rparr>]" .
  from t have "list_all (\<lambda>g. count g = length (sites g)) (reuseGroups (analyze group_entries))"
    unfolding list_all_iff by blast
  with ties reuse_groups_demo show ?thesis
    by (simp only: simp_thms)
qed

section \<open>Properties of the displayed sequence\<close>

lemma mset_insert_by: "mset (insert_by cmp y zs) = add_mset y (mset zs)"
  by (induction zs) simp_all

lemma mset_sort_by: "mset (sort_by cmp ys) = mset ys"
  by (induction ys) (simp_all add: sort_by_def mset_insert_by)

lemma result_row_eq:
  "result_row uh rows rc wa im q e =
     (if issue_pass im (candidate_row uh rows rc wa e) \<and> search_pass q (candidate_row uh rows rc wa e)
      then Some (candidate_row uh rows rc wa e) else None)"
  by (cases im)
    (auto simp: result_row_def candidate_row_def search_pass_def includes_str_def Let_def)

lemma map_filter_if:
  "List.map_filter (\<lambda>x. if P (c x) then Some (c x) else None) xs = filter P (map c xs)"
  by (induction xs) (simp_all add: List.map_filter_simps)

lemma allResults_eq:
  "allResults uh lc es rows rc wa im sm q =
     sort_by (result_cmp lc sm)
       (filter (\<lambda>r. issue_pass im r \<and> search_pass q r) (map (candidate_row uh rows rc wa) es))"
  using map_filter_if [of "\<lambda>r. issue_pass im r \<and> search_pass q r" "candidate_row uh rows rc wa" es]
  by (simp add: allResults_def result_row_eq [abs_def])


lemma result_cmp_risk:
  "result_cmp lc SortRisk = (\<lambda>a b. int (risk_score_of b) - int (risk_score_of a))"
  by (simp add: fun_eq_iff result_cmp_def risk_score_of_def)

lemma trim_query_empty: "trim q = [] \<Longrightarrow> search_pass q r"
  by (simp add: search_pass_def toLowerCase_def)

lemma risk_example_order:
  assumes "reuseCount a = 5" "\<not> isWeak a" "reuseCount b = 0" "isWeak b"
    "reuseCount c = 1" "\<not> isWeak c"
    and "xs \<in> {[a, b, c], [a, c, b], [b, a, c], [b, c, a], [c, a, b], [c, b, a]}"
  shows "sort_by (result_cmp lc SortRisk) xs = [a, b, c]"
  using assms by (auto simp: sort_by_def result_cmp_def riskScore_def)

text \<open>
  Claim C6, amended. The displayed sequence holds exactly the candidate rows that pass
  the issue-mode predicate and the search filter (reuse keeps rows with a reuse count
  of at least 2, weak keeps the weak rows, all keeps every row); with a query that is
  empty after trimming it holds exactly the rows that pass the issue-mode predicate.
  Under the risk sort the sequence is in descending order of the score computed from
  each row's reuse count and weakness flag, and rows with (5, not weak), (0, weak),
  (1, not weak) come out in that order from every input order.
\<close>

theorem allResults_filter_sort:
  "mset (allResults uh lc es rows rc wa im sm q) =
     mset (filter (\<lambda>r. issue_pass im r \<and> search_pass q r) (map (candidate_row uh rows rc wa) es))
   \<and> (trim q = [] \<longrightarrow>
        mset (allResults uh lc es rows rc wa im sm q) =
          mset (filter (issue_pass im) (map (candidate_row uh rows rc wa) es)))
   \<and> (sm = SortRisk \<longrightarrow>
        sorted_wrt (\<lambda>a b. riskScore (reuseCount a) (isWeak a) \<ge> riskScore (reuseCount b) (isWeak b))
          (allResults uh lc es rows rc wa im sm q))
   \<and> (reuseCount a = 5 \<and> \<not> isWeak a \<and> reuseCount b = 0 \<and> isWeak b
        \<and> reuseCount c = 1 \<and> \<not> isWeak c
        \<and> xs \<in> {[a, b, c], [a, c, b], [b, a, c], [b, c, a], [c, a, b], [c, b, a]}
        \<longrightarrow> sort_by (result_cmp lc SortRisk) xs = [a, b, c])"
proof (intro conjI impI)
  let ?cs = "map (candidate_row uh rows rc wa) es"
  show m: "mset (allResults uh lc es rows rc wa im sm q) =
     mset (filter (\<lambda>r. issue_pass im r \<and> search_pass q r) ?cs)"
  proof (cases sm)
    case SortRisk
    then show ?thesis
      by (simp only: allResults_eq result_cmp_risk sort_by_mset)
  next
    case SortDomain
    have "mset (sort_by cmp ys) = mset ys" for cmp :: "ResultRow \<Rightarrow> ResultRow \<Rightarrow> int" and ys
      by (rule mset_sort_by)
    then show ?thesis
      by (simp only: allResults_eq)
  next
    case SortReuseCount
    have "result_cmp lc SortReuseCount = (\<lambda>a b. int (reuseCount b) - int (reuseCount a))"
      by (simp add: fun_eq_iff result_cmp_def)
    with SortReuseCount show ?thesis
      by (simp only: allResults_eq sort_by_mset)
  qed
  {
    assume "trim q = []"
    then have "(\<lambda>r. issue_pass im r \<and> search_pass q r) = issue_pass im"
      by (simp add: fun_eq_iff trim_query_empty)
    with m show "mset (allResults uh lc es rows rc wa im sm q) = mset (filter (issue_pass im) ?cs)"
      by simp
  }
  {
    assume "sm = SortRisk"
    then have "sorted_wrt (\<lambda>a b. int (risk_score_of a) \<ge> int (risk_score_of b))
        (allResults uh lc es rows rc wa im sm q)"
      by (simp only: allResults_eq result_cmp_risk sort_by_descending)
    then show "sorted_wrt (\<lambda>a b. riskScore (reuseCount a) (isWeak a) \<ge> riskScore (reuseCount b) (isWeak b))
          (allResults uh lc es rows rc wa im sm q)"
      by (simp add: risk_score_of_def)
  }
  {
    assume "reuseCount a = 5 \<and> \<not> isWeak a \<and> reuseCount b = 0 \<and> isWeak b
        \<and> reuseCount c = 1 \<and> \<not> isWeak c
        \<and> xs \<in> {[a, b, c], [a, c, b], [b, a, c], [b, c, a], [c, a, b], [c, b, a]}"
    then show "sort_by (result_cmp lc SortRisk) xs = [a, b, c]"
      using risk_example_order [of a b c xs lc] by blast
  }
qed

lemma allResults_demo:
  "allResults hostname_none compare_equal sort_entries [] sort_reuse sort_weak IssueAll SortRisk []
     = [row_a, row_b, row_c]"
  by code_simp

lemma candidates_demo:
  "map (candidate_row hostname_none [] sort_reuse sort_weak) sort_entries = [row_c, row_b, row_a]"
  by code_simp

theorem allResults_filter_sort_witness:
  "trim [] = [] \<and> reuseCount row_a = 5 \<and> \<not> isWeak row_a \<and> reuseCount row_b = 0 \<and> isWeak row_b
   \<and> reuseCount row_c = 1 \<and> \<not> isWeak row_c
   \<and> mset [row_a, row_b, row_c] = mset (filter (issue_pass IssueAll) [row_c, row_b, row_a])
   \<and> sorted_wrt (\<lambda>a b. riskScore (reuseCount a) (isWeak a) \<ge> riskScore (reuseCount b) (isWeak b))
        [row_a, row_b, row_c]
   \<and> sort_by (result_cmp compare_equal SortRisk) [row_c, row_b, row_a] = [row_a, row_b, row_c]"
proof -
  have h: "trim [] = []" "reuseCount row_a = 5" "\<not> isWeak row_a" "reuseCount row_b = 0"
    "isWeak row_b" "reuseCount row_c = 1" "\<not> isWeak row_c"
    by (simp_all add: trim_def row_a_def row_b_def row_c_def)
  have x: "[row_c, row_b, row_a] \<in> {[row_a, row_b, row_c], [row_a, row_c, row_b],
      [row_b, row_a, row_c], [row_b, row_c, row_a], [row_c, row_a, row_b], [row_c, row_b, row_a]}"
    by simp
  note t = allResults_filter_sort [of hostname_none compare_equal sort_entries "[]" sort_reuse
      sort_weak IssueAll SortRisk "[]" row_a row_b row_c "[row_c, row_b, row_a]"]
  from t h have A: "mset (allResults hostname_none compare_equal sort_entries [] sort_reuse
      sort_weak IssueAll SortRisk []) =
      mset (filter (issue_pass IssueAll)
        (map (candidate_row hostname_none [] sort_reuse sort_weak) sort_entries))"
    by blast
  from t have B: "sorted_wrt
      (\<lambda>a b. riskScore (reuseCount a) (isWeak a) \<ge> riskScore (reuseCount b) (isWeak b))
      (allResults hostname_none compare_equal sort_entries [] sort_reuse sort_weak IssueAll
        SortRisk [])"
    by blast
  from t h x have C: "sort_by (result_cmp compare_equal SortRisk) [row_c, row_b, row_a] =
      [row_a, row_b, row_c]"
    by blast
  from A B C h show ?thesis
    unfolding allResults_demo candidates_demo by blast
qed

text \<open>
  Claim C6 as stated fails: a row that passes the issue mode \<open>all\<close> is not displayed
  when the search query does not occur in it.
\<close>

theorem allResults_search_counterexample:
  "issue_pass IssueAll (candidate_row hostname_none [] [] []
      \<lparr>site = ''mail'', username = ''ann'', password = ''hunter2''\<rparr>)
   \<and> allResults hostname_none compare_equal
        [\<lparr>site = ''mail'', username = ''ann'', password = ''hunter2''\<rparr>] [] [] []
        IssueAll SortRisk ''zzz'' = []"
  by code_simp

section \<open>Properties of the live minimum length\<close>

lemma toString_12: "toString_int 12 = ''12''"
  by code_simp

lemma adjustWeakReasons_eq:
  "adjustWeakReasons rs pw n =
     (if (case pw of Some p \<Rightarrow> 0 < length p \<and> int (length p) < n | None \<Rightarrow> False)
      then (''Length < '' @ toString_int n) # strip_length rs
      else strip_length rs)"
  by (cases pw) (auto simp: adjustWeakReasons_def strip_length_def Let_def)

text \<open>
  A blank field gives the default of 12, and the length reason is then the baseline one.
\<close>

lemma minLength_blank:
  "minLength_onChange None = 12
   \<and> adjustWeakReasons rs pw (minLength_onChange None) =
       (if (case pw of Some p \<Rightarrow> 0 < length p \<and> length p < 12 | None \<Rightarrow> False)
        then ''Length < 12'' # strip_length rs
        else strip_length rs)"
  by (cases pw) (auto simp: minLength_onChange_def adjustWeakReasons_eq toString_12)

text \<open>
  Claim C7, at inputs where the code departs from it. The field declares the range 6 to
  64, and the handler passes a typed number on as it is: 3, below the range, and 100,
  above it, reach the length comparison unchanged and word the length reason, and 0 is
  not replaced by the default of 12.
\<close>

theorem minLength_unclamped:
  "minLength_onChange (Some 3) = 3 \<and> 3 < minLength_min
   \<and> adjustWeakReasons [''Length < 12'', ''No symbol''] (Some ''ab'') (minLength_onChange (Some 3))
       = [''Length < 3'', ''No symbol'']
   \<and> adjustWeakReasons [''Length < 12'', ''No symbol''] (Some ''abcDEF1234'')
         (minLength_onChange (Some 3))
       = [''No symbol'']
   \<and> minLength_onChange (Some 100) = 100 \<and> minLength_max < 100
   \<and> adjustWeakReasons [''No symbol''] (Some ''abcdefghijklmnopqrstuvwxyzABCDEFGHIJKLMN0123456789'')
         (minLength_onChange (Some 100))
       = [''Length < 100'', ''No symbol'']
   \<and> minLength_onChange (Some 0) = 0
   \<and> adjustWeakReasons [''Length < 12'', ''No symbol''] (Some ''ab'') (minLength_onChange (Some 0))
       = [''No symbol'']"
  by code_simp

text \<open>
  Claim C2, at an input where the code departs from it. With the live minimum length 20,
  an entry whose password of 14 characters has no baseline finding gets no entry in the
  adjusted lookup, although its length is nonzero and below 20; an entry of the same
  length that has a baseline finding gets the reason worded with 20.
\<close>

theorem weakAdjusted_misses_strong_baseline:
  "length (password strong_entry) = 14
   \<and> weakFindings (analyze [strong_entry]) = []
   \<and> Map_get (weakAdjustedByKey (analyze [strong_entry]) (passwordByKey [strong_entry]) 20)
        (keyOf (site strong_entry) (username strong_entry)) = None
   \<and> length (password nosymbol_entry) = 14
   \<and> Map_get (weakAdjustedByKey (analyze [nosymbol_entry]) (passwordByKey [nosymbol_entry]) 20)
        (keyOf (site nosymbol_entry) (username nosymbol_entry))
       = Some [''Length < 20'', ''No symbol'']"
  by code_simp

section \<open>The adjusted lookup on entries with a baseline finding\<close>

text \<open>
  Where the keys of the entries are distinct, the adjusted lookup of an entry that has a
  baseline finding holds its baseline reasons without the length reason and, first, the
  length reason of the live threshold when the password is shorter; an entry whose
  reasons come out empty, or that has no baseline finding, has no entry in the lookup.
  For a threshold of at most 12 every entry shorter than the threshold has a baseline
  finding, so the lookup then is the adjusted reason list of every entry.
\<close>

lemma filter_same_key:
  "distinct (map f xs) \<Longrightarrow> x \<in> set xs \<Longrightarrow> filter (\<lambda>y. f y = f x) xs = [x]"
proof (induction xs)
  case Nil
  then show ?case by simp
next
  case (Cons a xs)
  show ?case
  proof (cases "a = x")
    case True
    have "filter (\<lambda>y. f y = f x) xs = []"
      using Cons.prems(1) True by (auto simp: filter_empty_conv image_iff)
    then show ?thesis using True by simp
  next
    case False
    then have "x \<in> set xs" using Cons.prems(2) by simp
    moreover have "f a \<noteq> f x"
      using Cons.prems(1) \<open>x \<in> set xs\<close> by (auto simp: image_iff)
    ultimately show ?thesis
      using Cons by simp
  qed
qed

lemma passwordByKey_unique:
  assumes "distinct (map (\<lambda>e. keyOf (site e) (username e)) es)" and "e \<in> set es"
  shows "Map_get (passwordByKey es) (keyOf (site e) (username e)) = Some (password e)"
  using filter_same_key [OF assms] by (simp add: passwordByKey_get)

lemma weak_checks_fields:
  "map (\<lambda>w. (site_wf w, username_wf w, reasons w))
     (List.map_filter (\<lambda>x. x) (map weakFinding_of (enumerate n es))) =
   map (\<lambda>e. (site e, username e, reasons_of (password e)))
     (filter (\<lambda>e. reasons_of (password e) \<noteq> []) es)"
  by (induction es arbitrary: n) (simp_all add: weakFinding_of_def Let_def List.map_filter_simps)

lemma weakAdjustedByKey_fold:
  "weakAdjustedByKey (analyze es) pwk n =
     fold (adjust_step pwk n)
       (map (\<lambda>e. (site e, username e, reasons_of (password e)))
          (filter (\<lambda>e. reasons_of (password e) \<noteq> []) es)) []"
proof -
  have "weakAdjustedByKey (analyze es) pwk n =
        fold (adjust_step pwk n) (map (\<lambda>w. (site_wf w, username_wf w, reasons w)) (weak_checks es)) []"
    by (simp add: weakAdjustedByKey_def weakFindings_analyze fold_map o_def adjust_step_def [abs_def] Let_def)
  then show ?thesis
    by (simp only: weak_checks_def weak_checks_fields)
qed


lemma fold_adjust_step_get:
  "distinct (map (\<lambda>(s, u, rs). keyOf s u) ts) \<Longrightarrow>
   Map_get (fold (adjust_step pwk n) ts m) k =
     (case find (\<lambda>(s, u, rs). keyOf s u = k) ts of
        None \<Rightarrow> Map_get m k
      | Some (s, u, rs) \<Rightarrow>
          if adjustWeakReasons rs (Map_get pwk k) n = [] then Map_get m k
          else Some (adjustWeakReasons rs (Map_get pwk k) n))"
proof (induction ts arbitrary: m)
  case Nil
  show ?case by simp
next
  case (Cons t ts)
  obtain s u rs where t: "t = (s, u, rs)"
    by (cases t) auto
  have d: "distinct (map (\<lambda>(s, u, rs). keyOf s u) ts)"
    using Cons.prems by simp
  have step: "adjust_step pwk n (s, u, rs) m =
      (if adjustWeakReasons rs (Map_get pwk (keyOf s u)) n \<noteq> []
       then Map_set m (keyOf s u) (adjustWeakReasons rs (Map_get pwk (keyOf s u)) n) else m)"
    by (simp add: adjust_step_def)
  show ?case
  proof (cases "keyOf s u = k")
    case True
    have "\<forall>x \<in> set ts. \<not> (case x of (s, u, rs) \<Rightarrow> keyOf s u = k)"
      using Cons.prems True t by (auto simp: image_iff)
    then have "find (\<lambda>(s, u, rs). keyOf s u = k) ts = None"
      by (auto simp: find_None_iff)
    then show ?thesis
      using True t by (simp add: Cons.IH [OF d] step Map_get_set)
  next
    case False
    then have "k \<noteq> keyOf s u"
      by auto
    then show ?thesis
      using t by (simp add: Cons.IH [OF d] step Map_get_set split: option.splits)
  qed
qed

lemma find_mapped: "find P (map f xs) = map_option f (find (\<lambda>x. P (f x)) xs)"
  by (induction xs) simp_all

lemma find_unique_key:
  "distinct (map f xs) \<Longrightarrow> x \<in> set xs \<Longrightarrow>
   find (\<lambda>y. f y = f x) (filter P xs) = (if P x then Some x else None)"
proof (induction xs)
  case Nil
  then show ?case by simp
next
  case (Cons a xs)
  show ?case
  proof (cases "a = x")
    case True
    have "\<forall>y \<in> set xs. f y \<noteq> f x"
      using Cons.prems(1) True by (auto simp: image_iff)
    then have "find (\<lambda>y. f y = f x) (filter P xs) = None"
      by (simp add: find_None_iff)
    then show ?thesis using True by simp
  next
    case False
    then have "x \<in> set xs" using Cons.prems(2) by simp
    moreover have "f a \<noteq> f x"
      using Cons.prems(1) \<open>x \<in> set xs\<close> by (auto simp: image_iff)
    ultimately show ?thesis
      using Cons by simp
  qed
qed

lemma weakAdjustedByKey_lookup:
  assumes d: "distinct (map (\<lambda>e. keyOf (site e) (username e)) es)" and e: "e \<in> set es"
  shows "Map_get (weakAdjustedByKey (analyze es) (passwordByKey es) n) (keyOf (site e) (username e)) =
     (if reasons_of (password e) = [] then None
      else if adjustWeakReasons (reasons_of (password e)) (Some (password e)) n = [] then None
      else Some (adjustWeakReasons (reasons_of (password e)) (Some (password e)) n))"
proof -
  let ?K = "\<lambda>e. keyOf (site e) (username e)"
  let ?P = "\<lambda>e. reasons_of (password e) \<noteq> []"
  let ?T = "\<lambda>e. (site e, username e, reasons_of (password e))"
  have d': "distinct (map (\<lambda>(s, u, rs). keyOf s u) (map ?T (filter ?P es)))"
    using d by (simp add: o_def distinct_map_filter)
  have "find (\<lambda>(s, u, rs). keyOf s u = ?K e) (map ?T (filter ?P es)) =
        map_option ?T (find (\<lambda>y. ?K y = ?K e) (filter ?P es))"
    by (simp add: find_mapped)
  also have "\<dots> = (if ?P e then Some (?T e) else None)"
    by (simp add: find_unique_key [OF d e])
  finally have f: "find (\<lambda>(s, u, rs). keyOf s u = ?K e) (map ?T (filter ?P es)) =
      (if ?P e then Some (?T e) else None)" .
  show ?thesis
    unfolding weakAdjustedByKey_fold fold_adjust_step_get [OF d'] f
    by (simp add: passwordByKey_unique [OF d e]) (simp add: Map_get_def)
qed


lemma reasons_of_Nil_length: "reasons_of pw = [] \<Longrightarrow> 12 \<le> length pw"
  by (simp add: reasons_of_def split: if_splits)

lemma weakAdjustedByKey_lookup_le_12:
  assumes d: "distinct (map (\<lambda>e. keyOf (site e) (username e)) es)" and e: "e \<in> set es"
    and n: "n \<le> 12"
  shows "Map_get (weakAdjustedByKey (analyze es) (passwordByKey es) n) (keyOf (site e) (username e)) =
     (if adjustWeakReasons (reasons_of (password e)) (Some (password e)) n = [] then None
      else Some (adjustWeakReasons (reasons_of (password e)) (Some (password e)) n))"
proof (cases "reasons_of (password e) = []")
  case True
  then have "12 \<le> length (password e)"
    by (rule reasons_of_Nil_length)
  then have "adjustWeakReasons (reasons_of (password e)) (Some (password e)) n = []"
    using n True by (simp add: adjustWeakReasons_eq strip_length_def)
  then show ?thesis
    using True by (simp add: weakAdjustedByKey_lookup [OF d e])
next
  case False
  then show ?thesis
    by (simp add: weakAdjustedByKey_lookup [OF d e])
qed

end
